theory Spec2Isabelle
  imports Complex_Main
begin

section \<open>The dungeon crawler game of \<^verbatim>\<open>project 2/dungeon.py\<close>\<close>

subsection \<open>Geometry helpers\<close>

text \<open>
  \<^verbatim>\<open>Point\<close> and \<^verbatim>\<open>Direction\<close> are imported by \<^verbatim>\<open>dungeon.py\<close> from the module
  \<^verbatim>\<open>mathutils\<close>, which is not among the sources. The definitions of this subsection
  give the part of that module the game uses.
\<close>

type_synonym Point = "int \<times> int"

text \<open>
  Modelled from the spec: \<^verbatim>\<open>mathutils.Point.__add__\<close> is missing; the spec describes
  "a 2D integer point type with vector addition".
\<close>

definition point_add :: "Point \<Rightarrow> Point \<Rightarrow> Point" where
  "point_add p q = (fst p + fst q, snd p + snd q)"

text \<open>
  Modelled from the spec: the enumeration \<^verbatim>\<open>mathutils.Direction\<close> is missing; the spec
  describes "a direction enumeration {UP, DOWN, LEFT, RIGHT, NONE} mapping to unit/zero
  vectors". \<^verbatim>\<open>dungeon.py\<close> itself names the member \<^verbatim>\<open>Direction.NONE\<close>.
\<close>

datatype Direction = UP | DOWN | LEFT | RIGHT | NONE

text \<open>
  Modelled from the spec: the members that \<^verbatim>\<open>for direction in Direction\<close> runs through.
  Iterating a Python \<^verbatim>\<open>Enum\<close> class yields every member, so \<open>NONE\<close> is one of them. The
  order is the one in which the spec lists the members.
\<close>

definition all_directions :: "Direction list" where
  "all_directions = [UP, DOWN, LEFT, RIGHT, NONE]"

text \<open>
  Modelled from the spec: \<^verbatim>\<open>mathutils.Direction.to_vector\<close> is missing. The four movement
  directions map to the unit vectors (rows grow downwards, as in \<^verbatim>\<open>from_text\<close>, where
  \<open>y\<close> is the line number) and \<open>NONE\<close> maps to the zero vector.
\<close>

fun to_vector :: "Direction \<Rightarrow> Point" where
  "to_vector UP = (0, -1)"
| "to_vector DOWN = (0, 1)"
| "to_vector LEFT = (-1, 0)"
| "to_vector RIGHT = (1, 0)"
| "to_vector NONE = (0, 0)"

subsection \<open>Data model\<close>

text \<open>
  The dataclasses of lines 28--68. Python integers are unbounded, hence \<open>int\<close>. The
  fields of \<^verbatim>\<open>Inventory\<close> and \<^verbatim>\<open>Monster\<close> carry a prefix, because a record field is a
  constant of the theory and \<^verbatim>\<open>Player\<close> and \<^verbatim>\<open>DungeonState\<close> use the same names.
\<close>

record DungeonLayout =
  width :: int
  height :: int
  walkable :: "Point set"
  exit :: Point

record Inventory =
  inv_daggers :: int
  inv_coins :: int
  inv_keys :: int

record Player =
  position :: Point
  alive :: bool
  inventory :: Inventory

record Monster =
  m_position :: Point
  m_alive :: bool

record DungeonState =
  time :: int
  turn :: int
  layout :: DungeonLayout
  player :: Player
  coins :: "Point set"
  daggers :: "Point set"
  keys :: "Point set"
  monsters :: "Monster list"

record DungeonGame =
  game_layout :: DungeonLayout
  initial_state :: DungeonState

datatype error = IndexError | ZeroDivisionError

text \<open>
  Python list subscription \<^verbatim>\<open>xs[i]\<close> on a list of \<open>n\<close> elements: an index in
  \<open>[0, n)\<close> is used as it is, an index in \<open>[-n, 0)\<close> counts from the end, any other
  index raises \<^verbatim>\<open>IndexError\<close> (here \<open>None\<close>).
\<close>

definition py_index :: "nat \<Rightarrow> int \<Rightarrow> nat option" where
  "py_index n i =
     (if 0 \<le> i \<and> i < int n then Some (nat i)
      else if - int n \<le> i \<and> i < 0 then Some (nat (int n + i))
      else None)"

subsection \<open>Turn sequencing (lines 71--77)\<close>

text \<open>
  The \<^verbatim>\<open>while\<close> loop of \<^verbatim>\<open>next_turn\<close>, with the local variable \<^verbatim>\<open>turn\<close> as the
  argument \<open>t\<close>. The loop ends: \<open>length ms - t\<close> decreases.
\<close>

function next_turn_loop :: "Monster list \<Rightarrow> int \<Rightarrow> error + int" where
  "next_turn_loop ms t =
     (if t < int (length ms) then
        (case py_index (length ms) t of
           None \<Rightarrow> Inl IndexError
         | Some j \<Rightarrow> if m_alive (ms ! j) then Inr (t + 1) else next_turn_loop ms (t + 1))
      else Inr 0)"
  by pat_completeness auto
termination
  by (relation "measure (\<lambda>(ms, t). nat (int (length ms) - t))") auto

definition next_turn :: "DungeonState \<Rightarrow> error + int" where
  "next_turn s = next_turn_loop (monsters s) (turn s)"

text \<open>
  The driver's iteration \<^verbatim>\<open>turn := next_turn()\<close> over a fixed list of monsters: the
  turns handed out until control is back at the player (turn 0).
\<close>

function turn_cycle :: "DungeonState \<Rightarrow> error + int list" where
  "turn_cycle s =
     (case next_turn s of
        Inl e \<Rightarrow> Inl e
      | Inr r \<Rightarrow>
          if r = 0 then Inr []
          else (case turn_cycle (s\<lparr>turn := r\<rparr>) of
                  Inl e \<Rightarrow> Inl e
                | Inr rs \<Rightarrow> Inr (r # rs)))"
  by pat_completeness auto
termination
proof (relation "measure (\<lambda>s. nat (int (length (monsters s)) - turn s))")
  show "wf (measure (\<lambda>s. nat (int (length (monsters s)) - turn s)))" by simp
next
  have upper: "next_turn_loop ms t = Inr r \<Longrightarrow> r \<noteq> 0 \<Longrightarrow> t < r \<and> r \<le> int (length ms)"
    for ms t r
  proof (induction ms t rule: next_turn_loop.induct)
    case (1 ms t)
    show ?case
    proof (cases "t < int (length ms)")
      case False
      with "1.prems" show ?thesis by simp
    next
      case True
      show ?thesis
      proof (cases "py_index (length ms) t")
        case None
        with True "1.prems" show ?thesis by simp
      next
        case (Some j)
        show ?thesis
        proof (cases "m_alive (ms ! j)")
          case True
          with \<open>t < int (length ms)\<close> Some "1.prems" show ?thesis by auto
        next
          case False
          with \<open>t < int (length ms)\<close> Some "1.prems"
          have "next_turn_loop ms (t + 1) = Inr r" by simp
          with "1.IH" [OF \<open>t < int (length ms)\<close> Some False] "1.prems"(2)
          show ?thesis by simp
        qed
      qed
    qed
  qed
  fix s :: DungeonState and r :: int
  assume "next_turn s = Inr r" and "r \<noteq> 0"
  then have "turn s < r \<and> r \<le> int (length (monsters s))"
    using upper [of "monsters s" "turn s" r] by (simp add: next_turn_def)
  then show "(s\<lparr>turn := r\<rparr>, s) \<in> measure (\<lambda>s. nat (int (length (monsters s)) - turn s))"
    by simp
qed

subsection \<open>Action enumeration (lines 138--153)\<close>

text \<open>
  \<^verbatim>\<open>get_actions\<close> reads nothing of the game object, so the model takes the state only.
  The comprehension keeps the order of \<open>all_directions\<close>. On a monster's turn the list
  access \<^verbatim>\<open>state.monsters[index]\<close> follows \<open>py_index\<close>, while the test \<^verbatim>\<open>i != index\<close>
  compares the position in the list with the index as computed (\<open>turn - 1\<close>).
\<close>

definition monster_locations :: "Monster list \<Rightarrow> int \<Rightarrow> Point set" where
  "monster_locations ms index =
     set (map (\<lambda>(i, m). m_position m)
            (filter (\<lambda>(i, m). int i \<noteq> index \<and> m_alive m) (enumerate 0 ms)))"

definition get_actions :: "DungeonState \<Rightarrow> error + Direction list" where
  "get_actions s =
     (if turn s = 0 then
        Inr (filter (\<lambda>d. point_add (position (player s)) (to_vector d) \<in> walkable (layout s))
               all_directions)
      else
        (case py_index (length (monsters s)) (turn s - 1) of
           None \<Rightarrow> Inl IndexError
         | Some j \<Rightarrow>
             if \<not> m_alive (monsters s ! j) then Inr []
             else
               Inr (filter
                      (\<lambda>d. point_add (m_position (monsters s ! j)) (to_vector d)
                              \<in> walkable (layout s)
                          \<and> point_add (m_position (monsters s ! j)) (to_vector d)
                              \<notin> monster_locations (monsters s) (turn s - 1))
                      all_directions)))"

subsection \<open>Successor and combat (lines 155--204)\<close>

text \<open>
  \<^verbatim>\<open>deepcopy\<close> gives the function its own copy of the state, so the model passes the state
  by value. The monsters of a state are taken to be distinct objects, as \<^verbatim>\<open>from_text\<close>
  builds them: an update of one element of the list leaves the others alone.

  Lines 160--173: the player moves and takes what lies on the new cell.
\<close>

definition pickup :: "DungeonState \<Rightarrow> Direction \<Rightarrow> DungeonState" where
  "pickup s action =
     (let new_position = point_add (position (player s)) (to_vector action);
          s1 = s\<lparr>player := (player s)\<lparr>position := new_position\<rparr>\<rparr>;
          s2 = (if new_position \<in> coins s1
                then s1\<lparr>coins := coins s1 - {new_position},
                        player := (player s1)\<lparr>inventory :=
                          (inventory (player s1))\<lparr>inv_coins := inv_coins (inventory (player s1)) + 1\<rparr>\<rparr>\<rparr>
                else s1);
          s3 = (if new_position \<in> daggers s2
                then s2\<lparr>daggers := daggers s2 - {new_position},
                        player := (player s2)\<lparr>inventory :=
                          (inventory (player s2))\<lparr>inv_daggers := inv_daggers (inventory (player s2)) + 1\<rparr>\<rparr>\<rparr>
                else s2)
      in if new_position \<in> keys s3
         then s3\<lparr>keys := keys s3 - {new_position},
                 player := (player s3)\<lparr>inventory :=
                   (inventory (player s3))\<lparr>inv_keys := inv_keys (inventory (player s3)) + 1\<rparr>\<rparr>\<rparr>
         else s3)"

text \<open>
  Lines 174--185: the fight on the player's cell. \<^verbatim>\<open>monsters_at_player\<close> holds the monster
  objects of the state, so the loop of line 184 clears the flag of exactly those elements of
  \<^verbatim>\<open>state.monsters\<close> that passed the filter of line 175.
\<close>

definition monsters_at_player :: "DungeonState \<Rightarrow> Monster list" where
  "monsters_at_player s =
     filter (\<lambda>m. m_position m = position (player s) \<and> m_alive m) (monsters s)"

definition combat :: "DungeonState \<Rightarrow> DungeonState" where
  "combat s =
     (if monsters_at_player s \<noteq> [] then
        (if inv_daggers (inventory (player s)) < int (length (monsters_at_player s)) then
           s\<lparr>player := (player s)\<lparr>inventory := (inventory (player s))\<lparr>inv_daggers := 0\<rparr>,
                                   alive := False\<rparr>\<rparr>
         else
           s\<lparr>player := (player s)\<lparr>inventory := (inventory (player s))
                        \<lparr>inv_daggers := inv_daggers (inventory (player s))
                                         - int (length (monsters_at_player s))\<rparr>\<rparr>,
             monsters := map (\<lambda>m. if m_position m = position (player s) \<and> m_alive m
                                   then m\<lparr>m_alive := False\<rparr> else m) (monsters s)\<rparr>)
      else s)"

text \<open>Lines 188--198: the monster whose turn it is moves, and meets the player or not.\<close>

definition monster_move :: "DungeonState \<Rightarrow> Direction \<Rightarrow> error + DungeonState" where
  "monster_move s action =
     (case py_index (length (monsters s)) (turn s - 1) of
        None \<Rightarrow> Inl IndexError
      | Some j \<Rightarrow>
          (let monster = monsters s ! j;
               new_position = point_add (m_position monster) (to_vector action);
               monster1 = monster\<lparr>m_position := new_position\<rparr>
           in if new_position = position (player s) then
                (if inv_daggers (inventory (player s)) \<noteq> 0 then
                   Inr (s\<lparr>monsters := (monsters s)[j := monster1\<lparr>m_alive := False\<rparr>],
                          player := (player s)\<lparr>inventory := (inventory (player s))
                            \<lparr>inv_daggers := inv_daggers (inventory (player s)) - 1\<rparr>\<rparr>\<rparr>)
                 else
                   Inr (s\<lparr>monsters := (monsters s)[j := monster1],
                          player := (player s)\<lparr>alive := False\<rparr>\<rparr>))
              else Inr (s\<lparr>monsters := (monsters s)[j := monster1]\<rparr>)))"

text \<open>Lines 199--204: the turn advances, and the clock with it when the player is next.\<close>

definition advance :: "DungeonState \<Rightarrow> error + DungeonState" where
  "advance s =
     (case next_turn s of
        Inl e \<Rightarrow> Inl e
      | Inr t \<Rightarrow> Inr (if t = 0 then s\<lparr>turn := t, time := time s + 1\<rparr> else s\<lparr>turn := t\<rparr>))"

definition get_successor :: "DungeonState \<Rightarrow> Direction \<Rightarrow> error + DungeonState" where
  "get_successor s action =
     (if turn s = 0 then advance (combat (pickup s action))
      else (case monster_move s action of
              Inl e \<Rightarrow> Inl e
            | Inr s1 \<Rightarrow> advance s1))"

subsection \<open>Score and terminal test (lines 80--81 and 119--133)\<close>

text \<open>
  The score and the payoffs are Python floats. Their arithmetic is not fixed here: the
  operations the two functions use are the fields of a record that every definition below
  takes as its first argument, so that what is proved holds for whatever the operations
  compute. Every operation is taken to give a float (Python raises \<^verbatim>\<open>OverflowError\<close>
  where an integer or a result is beyond the range of a double, about \<open>1.8e308\<close>).
\<close>

record 'f float_ops =
  f_of_int :: "int \<Rightarrow> 'f"
  f_add :: "'f \<Rightarrow> 'f \<Rightarrow> 'f"
  f_sub :: "'f \<Rightarrow> 'f \<Rightarrow> 'f"
  f_mul :: "'f \<Rightarrow> 'f \<Rightarrow> 'f"
  f_neg :: "'f \<Rightarrow> 'f"
  f_gt :: "'f \<Rightarrow> 'f \<Rightarrow> bool"
  f_truediv :: "int \<Rightarrow> int \<Rightarrow> 'f"
  f_pow :: "int \<Rightarrow> 'f \<Rightarrow> 'f"
  f_1e8 :: 'f
  f_0_1 :: 'f

text \<open>
  Line 81. \<^verbatim>\<open>sum(not monster.alive ...)\<close> counts the dead monsters; the sum of the first
  two terms is an integer, converted when the float \<^verbatim>\<open>0.1 * self.time\<close> is subtracted.
\<close>

definition dead_monsters :: "DungeonState \<Rightarrow> int" where
  "dead_monsters s = int (length (filter (\<lambda>m. \<not> m_alive m) (monsters s)))"

definition score :: "'f float_ops \<Rightarrow> DungeonState \<Rightarrow> 'f" where
  "score F s =
     f_sub F (f_of_int F (inv_coins (inventory (player s)) + 10 * dead_monsters s))
             (f_mul F (f_0_1 F) (f_of_int F (time s)))"

text \<open>
  \<^verbatim>\<open>is_terminal\<close> reads the exit from the layout of the game object (\<^verbatim>\<open>self.layout\<close>).
  The decorator \<^verbatim>\<open>track_call_count\<close> only counts calls and is left out.
\<close>

definition is_terminal ::
  "'f float_ops \<Rightarrow> DungeonGame \<Rightarrow> DungeonState \<Rightarrow> bool \<times> 'f list option" where
  "is_terminal F g s =
     (let win = (inv_keys (inventory (player s)) \<noteq> 0
                 \<and> position (player s) = exit (game_layout g));
          INFINITY = f_1e8 F
      in if win then
           (let v = f_add F INFINITY (score F s)
            in (True, Some (v # map (\<lambda>_. f_neg F v) (monsters s))))
         else if \<not> alive (player s) then
           (True, Some (f_neg F INFINITY # map (\<lambda>_. INFINITY) (monsters s)))
         else (False, None))"

subsection \<open>The monster agent (lines 244--273)\<close>

text \<open>
  Modelled from the spec: the class \<^verbatim>\<open>helpers.mt19937.RandomGenerator\<close> is missing; the spec
  describes "a uniform random source supplying integer-in-range and float-in-[0,1) draws".
  A draw takes the state of the generator and returns the value drawn and the next state.
\<close>

record ('r, 'f) rng_ops =
  rng_int :: "'r \<Rightarrow> int \<Rightarrow> int \<Rightarrow> int \<times> 'r"
  rng_float :: "'r \<Rightarrow> 'f \<times> 'r"

record 'r MonsterAgent =
  rng :: 'r
  current_direction :: Direction
  steps :: int

text \<open>Lines 254--263.\<close>

definition select_new_action ::
  "('r, 'f) rng_ops \<Rightarrow> 'r MonsterAgent \<Rightarrow> Direction list \<Rightarrow> error + 'r MonsterAgent" where
  "select_new_action R ag actions =
     (let movement_actions = filter (\<lambda>a. a \<noteq> NONE) actions;
          ag1 = ag\<lparr>steps := 0\<rparr>
      in if movement_actions \<noteq> [] then
           (case rng_int R (rng ag1) 0 (int (length movement_actions) - 1) of
              (i, r') \<Rightarrow>
                (case py_index (length movement_actions) i of
                   None \<Rightarrow> Inl IndexError
                 | Some j \<Rightarrow> Inr (ag1\<lparr>rng := r', current_direction := movement_actions ! j\<rparr>)))
         else Inr (ag1\<lparr>current_direction := NONE\<rparr>))"

text \<open>
  Lines 265--273. The \<^verbatim>\<open>or\<close> chain is evaluated from the left and stops at the first
  true operand, so the generator is asked for a float only when the first two tests fail.
  \<^verbatim>\<open>-self.steps / min(...)\<close> is a true division and raises on a zero divisor.
\<close>

definition finish :: "'r MonsterAgent \<Rightarrow> Direction \<times> 'r MonsterAgent" where
  "finish ag = (current_direction ag, ag\<lparr>steps := steps ag + 1\<rparr>)"

definition act ::
  "'f float_ops \<Rightarrow> ('r, 'f) rng_ops \<Rightarrow> 'r MonsterAgent \<Rightarrow> DungeonState
     \<Rightarrow> error + (Direction \<times> 'r MonsterAgent)" where
  "act F R ag s =
     (case get_actions s of
        Inl e \<Rightarrow> Inl e
      | Inr actions \<Rightarrow>
          if current_direction ag = NONE \<or> current_direction ag \<notin> set actions then
            map_sum id finish (select_new_action R ag actions)
          else
            (case rng_float R (rng ag) of
               (u, r') \<Rightarrow>
                 if min (width (layout s)) (height (layout s)) = 0 then Inl ZeroDivisionError
                 else if f_gt F u (f_pow F 2 (f_truediv F (- steps ag)
                                      (min (width (layout s)) (height (layout s)))))
                 then map_sum id finish (select_new_action R (ag\<lparr>rng := r'\<rparr>) actions)
                 else Inr (finish (ag\<lparr>rng := r'\<rparr>))))"

subsection \<open>The invariants of the data model\<close>

text \<open>
  What the spec asks of every state: the layout has positive dimensions and a walkable exit,
  the occupied cells (the player, the alive monsters, the items) are walkable, the three
  item sets are pairwise disjoint, the turn is 0 or the turn of an alive monster, and no
  counter is negative.
\<close>

definition state_inv :: "DungeonState \<Rightarrow> bool" where
  "state_inv s \<longleftrightarrow>
     0 < width (layout s) \<and> 0 < height (layout s)
     \<and> exit (layout s) \<in> walkable (layout s)
     \<and> position (player s) \<in> walkable (layout s)
     \<and> (\<forall>m \<in> set (monsters s). m_alive m \<longrightarrow> m_position m \<in> walkable (layout s))
     \<and> coins s \<subseteq> walkable (layout s)
     \<and> daggers s \<subseteq> walkable (layout s)
     \<and> keys s \<subseteq> walkable (layout s)
     \<and> coins s \<inter> daggers s = {}
     \<and> coins s \<inter> keys s = {}
     \<and> daggers s \<inter> keys s = {}
     \<and> 0 \<le> turn s \<and> turn s \<le> int (length (monsters s))
     \<and> (turn s \<noteq> 0 \<longrightarrow> m_alive (monsters s ! nat (turn s - 1)))
     \<and> 0 \<le> inv_daggers (inventory (player s))
     \<and> 0 \<le> inv_coins (inventory (player s))
     \<and> 0 \<le> inv_keys (inventory (player s))
     \<and> 0 \<le> time s"

section \<open>Example states\<close>

text \<open>
  A level of three by three walkable cells with the exit in the far corner, and states of
  the game on it.
\<close>

definition ex_layout :: DungeonLayout where
  "ex_layout = \<lparr>width = 3, height = 3,
      walkable = {(0, 0), (1, 0), (2, 0), (0, 1), (1, 1), (2, 1), (0, 2), (1, 2), (2, 2)},
      exit = (2, 2)\<rparr>"

definition ex_player :: Player where
  "ex_player = \<lparr>position = (0, 0), alive = True,
      inventory = \<lparr>inv_daggers = 0, inv_coins = 0, inv_keys = 0\<rparr>\<rparr>"

definition ex_turns :: DungeonState where
  "ex_turns = \<lparr>time = 0, turn = 0, layout = ex_layout,
      player = ex_player\<lparr>position := (1, 1)\<rparr>,
      coins = {}, daggers = {}, keys = {},
      monsters = [\<lparr>m_position = (2, 0), m_alive = False\<rparr>, \<lparr>m_position = (2, 1), m_alive = True\<rparr>,
                  \<lparr>m_position = (0, 2), m_alive = False\<rparr>, \<lparr>m_position = (2, 2), m_alive = True\<rparr>]\<rparr>"

definition ex_second_monster :: DungeonState where
  "ex_second_monster = ex_turns\<lparr>turn := 2\<rparr>"

definition ex_fight :: DungeonState where
  "ex_fight = \<lparr>time = 4, turn = 0, layout = ex_layout,
      player = ex_player\<lparr>inventory := \<lparr>inv_daggers = 2, inv_coins = 0, inv_keys = 0\<rparr>\<rparr>,
      coins = {(1, 1)}, daggers = {(0, 1)}, keys = {(2, 0)},
      monsters = [\<lparr>m_position = (1, 0), m_alive = True\<rparr>, \<lparr>m_position = (1, 0), m_alive = True\<rparr>,
                  \<lparr>m_position = (2, 2), m_alive = True\<rparr>]\<rparr>"

definition ex_monster_turn :: DungeonState where
  "ex_monster_turn = \<lparr>time = 4, turn = 1, layout = ex_layout,
      player = ex_player\<lparr>inventory := \<lparr>inv_daggers = 3, inv_coins = 0, inv_keys = 0\<rparr>\<rparr>,
      coins = {(1, 1)}, daggers = {(0, 1)}, keys = {(2, 0)},
      monsters = [\<lparr>m_position = (1, 0), m_alive = True\<rparr>, \<lparr>m_position = (2, 2), m_alive = True\<rparr>]\<rparr>"

definition ex_game :: DungeonGame where
  "ex_game = \<lparr>game_layout = ex_layout, initial_state = ex_turns\<rparr>"

definition ex_won :: DungeonState where
  "ex_won = \<lparr>time = 10, turn = 0, layout = ex_layout,
      player = \<lparr>position = (2, 2), alive = True,
                inventory = \<lparr>inv_daggers = 0, inv_coins = 3, inv_keys = 1\<rparr>\<rparr>,
      coins = {}, daggers = {}, keys = {},
      monsters = [\<lparr>m_position = (1, 0), m_alive = False\<rparr>, \<lparr>m_position = (0, 2), m_alive = True\<rparr>]\<rparr>"

text \<open>
  An instance of the float operations, exact arithmetic over the reals, and a generator
  that counts: its integer draw is the counter reduced to the range asked for, its float
  draw is always one half.
\<close>

definition exact_ops :: "real float_ops" where
  "exact_ops = \<lparr>f_of_int = real_of_int, f_add = (+), f_sub = (-), f_mul = (*),
      f_neg = uminus, f_gt = (\<lambda>x y. x > y),
      f_truediv = (\<lambda>a b. real_of_int a / real_of_int b),
      f_pow = (\<lambda>b x. real_of_int b powr x),
      f_1e8 = 100000000, f_0_1 = 1 / 10\<rparr>"

definition counter_rng :: "(nat, real) rng_ops" where
  "counter_rng = \<lparr>rng_int = (\<lambda>r lo hi. (lo + int r mod (hi - lo + 1), Suc r)),
      rng_float = (\<lambda>r. (1 / 2, Suc r))\<rparr>"

definition ex_agent :: "nat MonsterAgent" where
  "ex_agent = \<lparr>rng = 1, current_direction = RIGHT, steps = 5\<rparr>"

section \<open>Properties\<close>

lemmas ex_defs = ex_turns_def ex_fight_def ex_monster_turn_def ex_layout_def ex_player_def

subsection \<open>Turn sequencing\<close>

lemma find_upt_Some:
  "find P [a..<n] = Some i \<Longrightarrow>
     a \<le> i \<and> i < n \<and> P i \<and> (\<forall>j. a \<le> j \<and> j < i \<longrightarrow> \<not> P j)
     \<and> filter P [a..<n] = i # filter P [Suc i..<n]"
proof (induction "n - a" arbitrary: a)
  case 0
  then show ?case by simp
next
  case (Suc k)
  then have lt: "a < n" and k: "k = n - Suc a" by auto
  have unf: "[a..<n] = a # [Suc a..<n]" using lt by (simp add: upt_conv_Cons)
  show ?case
  proof (cases "P a")
    case True
    with Suc.prems unf lt show ?thesis by auto
  next
    case False
    with Suc.prems unf have "find P [Suc a..<n] = Some i" by simp
    from Suc.hyps(1) [OF k this] False unf show ?thesis
      by (auto simp: less_Suc_eq_le dest: le_neq_implies_less)
  qed
qed

lemma find_upt_None:
  "find P [a..<n] = None \<Longrightarrow> (\<forall>j. a \<le> j \<and> j < n \<longrightarrow> \<not> P j) \<and> filter P [a..<n] = []"
  by (auto simp: find_None_iff filter_empty_conv)

lemma next_turn_loop_find:
  "0 \<le> t \<Longrightarrow>
   next_turn_loop ms t =
     Inr (case find (\<lambda>i. m_alive (ms ! i)) [nat t..<length ms] of
            None \<Rightarrow> 0 | Some i \<Rightarrow> int i + 1)"
proof (induction ms t rule: next_turn_loop.induct)
  case (1 ms t)
  show ?case
  proof (cases "t < int (length ms)")
    case False
    with "1.prems" show ?thesis by simp
  next
    case True
    with "1.prems" have idx: "py_index (length ms) t = Some (nat t)"
      by (simp add: py_index_def)
    from True "1.prems" have unf: "[nat t..<length ms] = nat t # [Suc (nat t)..<length ms]"
      by (simp add: upt_conv_Cons nat_less_iff)
    have suc: "nat (t + 1) = Suc (nat t)" using "1.prems" by simp
    show ?thesis
    proof (cases "m_alive (ms ! nat t)")
      case alive: True
      with True idx unf "1.prems" show ?thesis by simp
    next
      case dead: False
      from "1.IH" [OF True idx dead] "1.prems"
      have "next_turn_loop ms (t + 1) =
              Inr (case find (\<lambda>i. m_alive (ms ! i)) [Suc (nat t)..<length ms] of
                     None \<Rightarrow> 0 | Some i \<Rightarrow> int i + 1)"
        by (simp add: suc)
      with True idx unf dead show ?thesis by simp
    qed
  qed
qed

lemma turn_cycle_from:
  "0 \<le> turn s \<Longrightarrow>
   turn_cycle s =
     Inr (map (\<lambda>i. int i + 1)
            (filter (\<lambda>i. m_alive (monsters s ! i)) [nat (turn s)..<length (monsters s)]))"
proof (induction s rule: turn_cycle.induct)
  case (1 s)
  let ?P = "\<lambda>i. m_alive (monsters s ! i)"
  let ?n = "length (monsters s)"
  have nt: "next_turn s = Inr (case find ?P [nat (turn s)..<?n] of None \<Rightarrow> 0 | Some i \<Rightarrow> int i + 1)"
    using next_turn_loop_find [OF "1.prems"] by (simp add: next_turn_def)
  show ?case
  proof (cases "find ?P [nat (turn s)..<?n]")
    case None
    with nt find_upt_None [OF None] show ?thesis
      by (subst turn_cycle.simps) simp
  next
    case (Some i)
    from find_upt_Some [OF Some]
    have fl: "filter ?P [nat (turn s)..<?n] = i # filter ?P [Suc i..<?n]" by simp
    from nt Some have r: "next_turn s = Inr (int i + 1)" by simp
    have "turn_cycle (s\<lparr>turn := int i + 1\<rparr>) =
            Inr (map (\<lambda>i. int i + 1) (filter ?P [Suc i..<?n]))"
      using "1.IH" [OF r] by (simp add: nat_add_distrib)
    with r fl show ?thesis
      by (subst turn_cycle.simps) simp
  qed
qed

lemma next_turn_range:
  assumes "0 \<le> turn s" and "next_turn s = Inr t"
  shows "0 \<le> t \<and> t \<le> int (length (monsters s))
         \<and> (t \<noteq> 0 \<longrightarrow> m_alive (monsters s ! nat (t - 1)))"
proof (cases "find (\<lambda>i. m_alive (monsters s ! i)) [nat (turn s)..<length (monsters s)]")
  case None
  with assms next_turn_loop_find [OF assms(1), of "monsters s"] show ?thesis
    by (simp add: next_turn_def)
next
  case (Some i)
  from find_upt_Some [OF Some] have "i < length (monsters s)" "m_alive (monsters s ! i)"
    by simp_all
  moreover from Some assms next_turn_loop_find [OF assms(1), of "monsters s"]
  have "t = int i + 1" by (simp add: next_turn_def)
  ultimately show ?thesis by simp
qed

text \<open>
  Claim C5. In a state whose turn is not negative, \<open>next_turn\<close> returns \<open>i + 1\<close> for the
  smallest index \<open>i\<close> at or after the current turn whose monster is alive, and 0 when there
  is no such index. Hence iterating \<open>turn := next_turn\<close> from turn 0 over a fixed list of
  monsters hands out the turns of exactly the alive monsters, each once and in increasing
  order, and then returns 0.
\<close>

theorem next_turn_first_alive:
  assumes "0 \<le> turn s"
  shows "((\<exists>i. turn s \<le> int i \<and> i < length (monsters s) \<and> m_alive (monsters s ! i)
              \<and> (\<forall>j. turn s \<le> int j \<and> j < i \<longrightarrow> \<not> m_alive (monsters s ! j))
              \<and> next_turn s = Inr (int i + 1))
          \<or> ((\<forall>i. turn s \<le> int i \<and> i < length (monsters s) \<longrightarrow> \<not> m_alive (monsters s ! i))
              \<and> next_turn s = Inr 0))
         \<and> (turn s = 0 \<longrightarrow>
              turn_cycle s =
                Inr (map (\<lambda>i. int i + 1)
                       (filter (\<lambda>i. m_alive (monsters s ! i)) [0..<length (monsters s)])))"
proof -
  let ?P = "\<lambda>i. m_alive (monsters s ! i)"
  let ?n = "length (monsters s)"
  have nt: "next_turn s = Inr (case find ?P [nat (turn s)..<?n] of None \<Rightarrow> 0 | Some i \<Rightarrow> int i + 1)"
    using next_turn_loop_find [OF assms] by (simp add: next_turn_def)
  have first: "(\<exists>i. turn s \<le> int i \<and> i < ?n \<and> ?P i
              \<and> (\<forall>j. turn s \<le> int j \<and> j < i \<longrightarrow> \<not> ?P j)
              \<and> next_turn s = Inr (int i + 1))
          \<or> ((\<forall>i. turn s \<le> int i \<and> i < ?n \<longrightarrow> \<not> ?P i) \<and> next_turn s = Inr 0)"
  proof (cases "find ?P [nat (turn s)..<?n]")
    case None
    from find_upt_None [OF None] have "\<forall>i. turn s \<le> int i \<and> i < ?n \<longrightarrow> \<not> ?P i"
      using assms by (simp add: nat_le_iff)
    with nt None show ?thesis by simp
  next
    case (Some i)
    from find_upt_Some [OF Some] assms
    have "turn s \<le> int i \<and> i < ?n \<and> ?P i \<and> (\<forall>j. turn s \<le> int j \<and> j < i \<longrightarrow> \<not> ?P j)"
      by (simp add: nat_le_iff)
    with nt Some show ?thesis by auto
  qed
  have cyc: "turn s = 0 \<longrightarrow>
              turn_cycle s = Inr (map (\<lambda>i. int i + 1) (filter ?P [0..<?n]))"
    using turn_cycle_from [of s] by auto
  from first cyc show ?thesis by blast
qed

theorem next_turn_first_alive_witness:
  "0 \<le> turn ex_turns \<and> next_turn ex_turns = Inr 2 \<and> turn_cycle ex_turns = Inr [2, 4]"
proof -
  have h: "0 \<le> turn ex_turns" by (simp add: ex_turns_def)
  have nt: "next_turn ex_turns = Inr 2"
    by (simp add: next_turn_def ex_turns_def py_index_def)
  from next_turn_first_alive [OF h]
  have "turn ex_turns = 0 \<longrightarrow>
          turn_cycle ex_turns =
            Inr (map (\<lambda>i. int i + 1)
                   (filter (\<lambda>i. m_alive (monsters ex_turns ! i)) [0..<length (monsters ex_turns)]))"
    by blast
  then have "turn_cycle ex_turns = Inr [2, 4]"
    by (simp add: ex_turns_def upt_rec)
  with h nt show ?thesis by simp
qed

subsection \<open>Action enumeration\<close>

lemma monster_locations_iff:
  "p \<in> monster_locations ms index \<longleftrightarrow>
     (\<exists>i < length ms. int i \<noteq> index \<and> m_alive (ms ! i) \<and> m_position (ms ! i) = p)"
  by (force simp: monster_locations_def enumerate_eq_zip in_set_zip image_iff)

lemma py_index_in_range:
  "0 \<le> i \<Longrightarrow> i < int n \<Longrightarrow> py_index n i = Some (nat i)"
  by (simp add: py_index_def)

lemma point_add_zero: "point_add p (0, 0) = p"
  by (simp add: point_add_def)

lemma set_all_directions: "d \<in> set all_directions"
  by (cases d) (simp_all add: all_directions_def)

text \<open>
  Claim C1 says that \<open>get_actions\<close> never returns \<open>NONE\<close>. It does: \<open>NONE\<close> is a member of
  the enumeration the comprehension runs through, and its zero vector leaves the mover on its
  own cell. On the example level the player in the middle is offered all five directions,
  and the fourth monster, in the corner below the second, is offered \<open>LEFT\<close> and \<open>NONE\<close>.
\<close>

theorem get_actions_none_counterexample:
  "map_sum id set (get_actions ex_turns) = Inr {UP, DOWN, LEFT, RIGHT, NONE}
   \<and> map_sum id set (get_actions (ex_turns\<lparr>turn := 4\<rparr>)) = Inr {LEFT, NONE}"
  by (auto simp: get_actions_def ex_turns_def ex_layout_def ex_player_def all_directions_def
      point_add_def py_index_def monster_locations_def enumerate_eq_zip upt_rec)

text \<open>
  Claim C1, amended. A direction is offered exactly when its destination passes the test
  of the mover: for the player the cell is walkable; for an alive monster the cell is
  walkable and no other alive monster stands on it (a dead monster is offered nothing).
  The destination of \<open>NONE\<close> is the mover's own cell, so \<open>NONE\<close> is offered exactly when
  that cell passes the test.
\<close>

theorem get_actions_offers:
  "(turn s = 0 \<longrightarrow>
      (\<exists>acts. get_actions s = Inr acts
         \<and> (\<forall>d. d \<in> set acts \<longleftrightarrow>
                  point_add (position (player s)) (to_vector d) \<in> walkable (layout s))
         \<and> (NONE \<in> set acts \<longleftrightarrow> position (player s) \<in> walkable (layout s))))
   \<and> (0 < turn s \<and> turn s \<le> int (length (monsters s)) \<longrightarrow>
      (\<exists>acts. get_actions s = Inr acts
         \<and> (\<forall>d. d \<in> set acts \<longleftrightarrow>
                  m_alive (monsters s ! nat (turn s - 1))
                  \<and> point_add (m_position (monsters s ! nat (turn s - 1))) (to_vector d)
                      \<in> walkable (layout s)
                  \<and> (\<forall>i < length (monsters s).
                        i \<noteq> nat (turn s - 1) \<and> m_alive (monsters s ! i) \<longrightarrow>
                        m_position (monsters s ! i)
                          \<noteq> point_add (m_position (monsters s ! nat (turn s - 1))) (to_vector d)))
         \<and> (NONE \<in> set acts \<longleftrightarrow>
                  m_alive (monsters s ! nat (turn s - 1))
                  \<and> m_position (monsters s ! nat (turn s - 1)) \<in> walkable (layout s)
                  \<and> (\<forall>i < length (monsters s).
                        i \<noteq> nat (turn s - 1) \<and> m_alive (monsters s ! i) \<longrightarrow>
                        m_position (monsters s ! i) \<noteq> m_position (monsters s ! nat (turn s - 1))))))"
proof (intro conjI impI)
  assume t: "turn s = 0"
  then have ga: "get_actions s =
      Inr (filter (\<lambda>d. point_add (position (player s)) (to_vector d) \<in> walkable (layout s))
             all_directions)"
    by (simp add: get_actions_def)
  show "\<exists>acts. get_actions s = Inr acts
         \<and> (\<forall>d. d \<in> set acts \<longleftrightarrow>
                  point_add (position (player s)) (to_vector d) \<in> walkable (layout s))
         \<and> (NONE \<in> set acts \<longleftrightarrow> position (player s) \<in> walkable (layout s))"
    unfolding ga by (simp add: set_all_directions point_add_zero)
next
  assume "0 < turn s \<and> turn s \<le> int (length (monsters s))"
  then have pos: "0 < turn s" and le: "turn s \<le> int (length (monsters s))" by simp_all
  let ?k = "nat (turn s - 1)"
  from pos le have idx: "py_index (length (monsters s)) (turn s - 1) = Some ?k"
    by (simp add: py_index_in_range)
  from pos have ne: "int i \<noteq> turn s - 1 \<longleftrightarrow> i \<noteq> ?k" for i by auto
  have ga: "get_actions s =
      Inr (if \<not> m_alive (monsters s ! ?k) then []
           else filter (\<lambda>d. point_add (m_position (monsters s ! ?k)) (to_vector d)
                              \<in> walkable (layout s)
                          \<and> point_add (m_position (monsters s ! ?k)) (to_vector d)
                              \<notin> monster_locations (monsters s) (turn s - 1))
                  all_directions)"
    using pos idx by (simp add: get_actions_def)
  show "\<exists>acts. get_actions s = Inr acts
         \<and> (\<forall>d. d \<in> set acts \<longleftrightarrow>
                  m_alive (monsters s ! ?k)
                  \<and> point_add (m_position (monsters s ! ?k)) (to_vector d) \<in> walkable (layout s)
                  \<and> (\<forall>i < length (monsters s).
                        i \<noteq> ?k \<and> m_alive (monsters s ! i) \<longrightarrow>
                        m_position (monsters s ! i)
                          \<noteq> point_add (m_position (monsters s ! ?k)) (to_vector d)))
         \<and> (NONE \<in> set acts \<longleftrightarrow>
                  m_alive (monsters s ! ?k)
                  \<and> m_position (monsters s ! ?k) \<in> walkable (layout s)
                  \<and> (\<forall>i < length (monsters s).
                        i \<noteq> ?k \<and> m_alive (monsters s ! i) \<longrightarrow>
                        m_position (monsters s ! i) \<noteq> m_position (monsters s ! ?k)))"
    unfolding ga
    by (auto simp: set_all_directions point_add_zero monster_locations_iff ne)
qed

theorem get_actions_offers_witness:
  "turn ex_fight = 0
   \<and> (\<exists>acts. get_actions ex_fight = Inr acts \<and> NONE \<in> set acts \<and> UP \<notin> set acts)
   \<and> 0 < turn ex_monster_turn \<and> turn ex_monster_turn \<le> int (length (monsters ex_monster_turn))
   \<and> (\<exists>acts. get_actions ex_monster_turn = Inr acts \<and> NONE \<in> set acts)"
proof -
  have h0: "turn ex_fight = 0" by (simp add: ex_defs)
  have h1: "0 < turn ex_monster_turn \<and> turn ex_monster_turn \<le> int (length (monsters ex_monster_turn))"
    by (simp add: ex_defs)
  from get_actions_offers [of ex_fight] h0
  obtain acts where a: "get_actions ex_fight = Inr acts"
    "\<forall>d. d \<in> set acts \<longleftrightarrow>
        point_add (position (player ex_fight)) (to_vector d) \<in> walkable (layout ex_fight)"
    "NONE \<in> set acts \<longleftrightarrow> position (player ex_fight) \<in> walkable (layout ex_fight)"
    by blast
  from a(3) have n0: "NONE \<in> set acts" by (simp add: ex_defs)
  from a(2) have u0: "UP \<notin> set acts" by (simp add: ex_defs point_add_def)
  from get_actions_offers [of ex_monster_turn] h1
  obtain acts' where b: "get_actions ex_monster_turn = Inr acts'"
    "NONE \<in> set acts' \<longleftrightarrow>
       m_alive (monsters ex_monster_turn ! nat (turn ex_monster_turn - 1))
       \<and> m_position (monsters ex_monster_turn ! nat (turn ex_monster_turn - 1))
           \<in> walkable (layout ex_monster_turn)
       \<and> (\<forall>i < length (monsters ex_monster_turn).
             i \<noteq> nat (turn ex_monster_turn - 1) \<and> m_alive (monsters ex_monster_turn ! i) \<longrightarrow>
             m_position (monsters ex_monster_turn ! i)
               \<noteq> m_position (monsters ex_monster_turn ! nat (turn ex_monster_turn - 1)))"
    by blast
  from b(2) have n1: "NONE \<in> set acts'" by (simp add: ex_defs less_Suc_eq)
  from h0 h1 a(1) n0 u0 b(1) n1 show ?thesis by blast
qed

subsection \<open>Successor: the player's move\<close>

lemma advance_total: "0 \<le> turn s \<Longrightarrow> \<exists>s'. advance s = Inr s'"
  using next_turn_loop_find [of "turn s" "monsters s"] by (simp add: advance_def next_turn_def)

lemma advance_frame:
  "advance s = Inr s' \<Longrightarrow>
     monsters s' = monsters s \<and> player s' = player s \<and> layout s' = layout s
     \<and> coins s' = coins s \<and> daggers s' = daggers s \<and> keys s' = keys s
     \<and> time s' = (if turn s' = 0 then time s + 1 else time s)"
  by (auto simp: advance_def split: sum.splits if_splits)

lemma advance_turn: "advance s = Inr s' \<Longrightarrow> next_turn s = Inr (turn s')"
  by (auto simp: advance_def split: sum.splits if_splits)

lemma pickup_frame:
  "monsters (pickup s a) = monsters s \<and> turn (pickup s a) = turn s
   \<and> time (pickup s a) = time s \<and> layout (pickup s a) = layout s
   \<and> alive (player (pickup s a)) = alive (player s)
   \<and> position (player (pickup s a)) = point_add (position (player s)) (to_vector a)"
  by (simp add: pickup_def Let_def)

lemma pickup_items:
  "coins (pickup s a) = coins s - {point_add (position (player s)) (to_vector a)}
   \<and> daggers (pickup s a) = daggers s - {point_add (position (player s)) (to_vector a)}
   \<and> keys (pickup s a) = keys s - {point_add (position (player s)) (to_vector a)}"
  by (auto simp: pickup_def Let_def)

lemma pickup_inventory:
  "inv_coins (inventory (player (pickup s a))) =
     inv_coins (inventory (player s))
       + (if point_add (position (player s)) (to_vector a) \<in> coins s then 1 else 0)
   \<and> inv_daggers (inventory (player (pickup s a))) =
     inv_daggers (inventory (player s))
       + (if point_add (position (player s)) (to_vector a) \<in> daggers s then 1 else 0)
   \<and> inv_keys (inventory (player (pickup s a))) =
     inv_keys (inventory (player s))
       + (if point_add (position (player s)) (to_vector a) \<in> keys s then 1 else 0)"
  by (simp add: pickup_def Let_def)

lemma combat_frame:
  "turn (combat s) = turn s \<and> time (combat s) = time s \<and> layout (combat s) = layout s
   \<and> coins (combat s) = coins s \<and> daggers (combat s) = daggers s \<and> keys (combat s) = keys s
   \<and> position (player (combat s)) = position (player s)
   \<and> inv_coins (inventory (player (combat s))) = inv_coins (inventory (player s))
   \<and> inv_keys (inventory (player (combat s))) = inv_keys (inventory (player s))
   \<and> length (monsters (combat s)) = length (monsters s)"
  by (simp add: combat_def)

lemma combat_lose:
  "monsters_at_player s \<noteq> [] \<Longrightarrow>
   inv_daggers (inventory (player s)) < int (length (monsters_at_player s)) \<Longrightarrow>
     \<not> alive (player (combat s)) \<and> inv_daggers (inventory (player (combat s))) = 0
     \<and> monsters (combat s) = monsters s"
  by (simp add: combat_def)

lemma combat_win:
  "monsters_at_player s \<noteq> [] \<Longrightarrow>
   int (length (monsters_at_player s)) \<le> inv_daggers (inventory (player s)) \<Longrightarrow>
     alive (player (combat s)) = alive (player s)
     \<and> inv_daggers (inventory (player (combat s))) =
         inv_daggers (inventory (player s)) - int (length (monsters_at_player s))
     \<and> (\<forall>i < length (monsters s).
          monsters (combat s) ! i =
            (if m_position (monsters s ! i) = position (player s) \<and> m_alive (monsters s ! i)
             then (monsters s ! i)\<lparr>m_alive := False\<rparr> else monsters s ! i))"
  by (simp add: combat_def)

lemma combat_none:
  "monsters_at_player s = [] \<Longrightarrow> combat s = s"
  by (simp add: combat_def)

text \<open>
  Claim C2. On the player's turn \<open>get_successor\<close> returns a state. Let \<open>M\<close> be the number
  of alive monsters on the player's new cell and \<open>d\<close> the dagger count once the items of
  that cell are taken. If \<open>0 < M\<close> and \<open>d < M\<close> the player is dead and holds no dagger. If
  \<open>0 < M \<le> d\<close> every alive monster of that cell is dead, the dagger count is \<open>d - M\<close>
  and the player's alive flag is as before. If \<open>M = 0\<close> the monsters, the alive flag and the
  dagger count \<open>d\<close> are untouched by combat.
\<close>

theorem player_combat:
  assumes "turn s = 0"
  shows "\<exists>s'. get_successor s a = Inr s'
     \<and> (let new_position = point_add (position (player s)) (to_vector a);
            M = int (length (filter (\<lambda>m. m_position m = new_position \<and> m_alive m) (monsters s)));
            d = inv_daggers (inventory (player s)) + (if new_position \<in> daggers s then 1 else 0)
        in (0 < M \<and> d < M \<longrightarrow>
              \<not> alive (player s') \<and> inv_daggers (inventory (player s')) = 0)
         \<and> (0 < M \<and> M \<le> d \<longrightarrow>
              (\<forall>i < length (monsters s).
                 m_position (monsters s ! i) = new_position \<and> m_alive (monsters s ! i) \<longrightarrow>
                 \<not> m_alive (monsters s' ! i))
              \<and> inv_daggers (inventory (player s')) = d - M
              \<and> alive (player s') = alive (player s))
         \<and> (M = 0 \<longrightarrow>
              monsters s' = monsters s \<and> alive (player s') = alive (player s)
              \<and> inv_daggers (inventory (player s')) = d))"
proof -
  let ?p = "pickup s a"
  let ?c = "combat ?p"
  let ?np = "point_add (position (player s)) (to_vector a)"
  let ?M = "int (length (filter (\<lambda>m. m_position m = ?np \<and> m_alive m) (monsters s)))"
  let ?d = "inv_daggers (inventory (player s)) + (if ?np \<in> daggers s then 1 else 0)"
  have "turn ?c = 0" using assms by (simp add: combat_frame pickup_frame)
  then obtain s' where adv: "advance ?c = Inr s'"
    using advance_total [of ?c] by auto
  with assms have succ: "get_successor s a = Inr s'" by (simp add: get_successor_def)
  from advance_frame [OF adv]
  have same: "monsters s' = monsters ?c" "player s' = player ?c" by simp_all
  have map: "monsters_at_player ?p = filter (\<lambda>m. m_position m = ?np \<and> m_alive m) (monsters s)"
    by (simp add: monsters_at_player_def pickup_frame)
  have dag: "inv_daggers (inventory (player ?p)) = ?d" by (simp add: pickup_inventory)
  have lose: "0 < ?M \<and> ?d < ?M \<longrightarrow>
      \<not> alive (player s') \<and> inv_daggers (inventory (player s')) = 0"
  proof
    assume h: "0 < ?M \<and> ?d < ?M"
    then have ne: "monsters_at_player ?p \<noteq> []" unfolding map by auto
    from h have lt: "inv_daggers (inventory (player ?p)) < int (length (monsters_at_player ?p))"
      unfolding map dag by simp
    from combat_lose [OF ne lt] same
    show "\<not> alive (player s') \<and> inv_daggers (inventory (player s')) = 0" by simp
  qed
  have win: "0 < ?M \<and> ?M \<le> ?d \<longrightarrow>
      (\<forall>i < length (monsters s).
         m_position (monsters s ! i) = ?np \<and> m_alive (monsters s ! i) \<longrightarrow>
         \<not> m_alive (monsters s' ! i))
      \<and> inv_daggers (inventory (player s')) = ?d - ?M
      \<and> alive (player s') = alive (player s)"
  proof
    assume h: "0 < ?M \<and> ?M \<le> ?d"
    then have ne: "monsters_at_player ?p \<noteq> []" unfolding map by auto
    from h have le: "int (length (monsters_at_player ?p)) \<le> inv_daggers (inventory (player ?p))"
      unfolding map dag by simp
    from combat_win [OF ne le] same
    show "(\<forall>i < length (monsters s).
         m_position (monsters s ! i) = ?np \<and> m_alive (monsters s ! i) \<longrightarrow>
         \<not> m_alive (monsters s' ! i))
      \<and> inv_daggers (inventory (player s')) = ?d - ?M
      \<and> alive (player s') = alive (player s)"
      unfolding map dag by (simp add: pickup_frame)
  qed
  have none: "?M = 0 \<longrightarrow>
      monsters s' = monsters s \<and> alive (player s') = alive (player s)
      \<and> inv_daggers (inventory (player s')) = ?d"
  proof
    assume "?M = 0"
    then have "monsters_at_player ?p = []" unfolding map by simp
    from combat_none [OF this] same dag
    show "monsters s' = monsters s \<and> alive (player s') = alive (player s)
      \<and> inv_daggers (inventory (player s')) = ?d"
      by (simp add: pickup_frame)
  qed
  from succ lose win none show ?thesis unfolding Let_def by blast
qed

theorem player_combat_witness:
  "turn ex_fight = 0
   \<and> (\<exists>s'. get_successor ex_fight RIGHT = Inr s'
         \<and> \<not> m_alive (monsters s' ! 0) \<and> \<not> m_alive (monsters s' ! 1)
         \<and> inv_daggers (inventory (player s')) = 0 \<and> alive (player s'))"
proof -
  have h: "turn ex_fight = 0" by (simp add: ex_defs)
  from player_combat [OF h, of RIGHT] obtain s' where
    s: "get_successor ex_fight RIGHT = Inr s'" and
    c: "(let new_position = point_add (position (player ex_fight)) (to_vector RIGHT);
            M = int (length (filter (\<lambda>m. m_position m = new_position \<and> m_alive m) (monsters ex_fight)));
            d = inv_daggers (inventory (player ex_fight)) + (if new_position \<in> daggers ex_fight then 1 else 0)
        in (0 < M \<and> M \<le> d \<longrightarrow>
              (\<forall>i < length (monsters ex_fight).
                 m_position (monsters ex_fight ! i) = new_position \<and> m_alive (monsters ex_fight ! i) \<longrightarrow>
                 \<not> m_alive (monsters s' ! i))
              \<and> inv_daggers (inventory (player s')) = d - M
              \<and> alive (player s') = alive (player ex_fight)))"
    unfolding Let_def by blast
  from c have "\<not> m_alive (monsters s' ! 0) \<and> \<not> m_alive (monsters s' ! 1)
         \<and> inv_daggers (inventory (player s')) = 0 \<and> alive (player s')"
    by (simp add: ex_defs point_add_def Let_def less_Suc_eq numeral_3_eq_3)
  with h s show ?thesis by blast
qed

subsection \<open>Successor: a monster's move\<close>

lemma monster_move_in_range:
  assumes "0 < turn s" and "turn s \<le> int (length (monsters s))"
  shows "monster_move s a =
     Inr (let k = nat (turn s - 1);
              new_position = point_add (m_position (monsters s ! k)) (to_vector a)
          in if new_position = position (player s) then
               (if inv_daggers (inventory (player s)) \<noteq> 0 then
                  s\<lparr>monsters := (monsters s)[k := (monsters s ! k)\<lparr>m_position := new_position, m_alive := False\<rparr>],
                    player := (player s)\<lparr>inventory := (inventory (player s))
                      \<lparr>inv_daggers := inv_daggers (inventory (player s)) - 1\<rparr>\<rparr>\<rparr>
                else
                  s\<lparr>monsters := (monsters s)[k := (monsters s ! k)\<lparr>m_position := new_position\<rparr>],
                    player := (player s)\<lparr>alive := False\<rparr>\<rparr>)
             else s\<lparr>monsters := (monsters s)[k := (monsters s ! k)\<lparr>m_position := new_position\<rparr>]\<rparr>)"
  using assms by (simp add: monster_move_def py_index_in_range Let_def)

lemma monster_move_frame:
  assumes "monster_move s a = Inr s1"
  shows "turn s1 = turn s \<and> time s1 = time s \<and> layout s1 = layout s
     \<and> coins s1 = coins s \<and> daggers s1 = daggers s \<and> keys s1 = keys s
     \<and> position (player s1) = position (player s)
     \<and> inv_coins (inventory (player s1)) = inv_coins (inventory (player s))
     \<and> inv_keys (inventory (player s1)) = inv_keys (inventory (player s))
     \<and> length (monsters s1) = length (monsters s)"
  using assms by (auto simp: monster_move_def Let_def split: option.splits if_splits)

lemma monster_move_others:
  assumes "0 < turn s" and "turn s \<le> int (length (monsters s))"
    and "monster_move s a = Inr s1" and "i \<noteq> nat (turn s - 1)"
  shows "monsters s1 ! i = monsters s ! i"
  using assms(3,4) unfolding monster_move_in_range [OF assms(1,2)]
  by (auto simp: Let_def split: if_splits)

lemma monster_turn_successor:
  assumes "0 < turn s" and "turn s \<le> int (length (monsters s))"
  shows "\<exists>s1 s'. monster_move s a = Inr s1 \<and> advance s1 = Inr s' \<and> get_successor s a = Inr s'"
proof -
  obtain s1 where mv: "monster_move s a = Inr s1"
    using monster_move_in_range [OF assms] by simp
  have "turn s1 = turn s" using monster_move_frame [OF mv] by simp
  with assms(1) obtain s' where adv: "advance s1 = Inr s'"
    using advance_total [of s1] by auto
  with assms(1) mv have "get_successor s a = Inr s'" by (simp add: get_successor_def)
  with mv adv show ?thesis by blast
qed

text \<open>
  Claim C3. On the turn \<open>k > 0\<close> of a monster of the list, if the new cell of monster
  \<open>k - 1\<close> is the player's cell: with at least one dagger that monster is dead, every other
  monster is as before, the dagger count is one less and the player's alive flag is as
  before; with no dagger the player is dead and the monster's alive flag is as before.
\<close>

theorem monster_encounter:
  assumes "0 < turn s" and "turn s \<le> int (length (monsters s))"
  shows "\<exists>s'. get_successor s a = Inr s'
     \<and> (let k = nat (turn s - 1);
            new_position = point_add (m_position (monsters s ! k)) (to_vector a);
            d = inv_daggers (inventory (player s))
        in new_position = position (player s) \<longrightarrow>
             (1 \<le> d \<longrightarrow>
                \<not> m_alive (monsters s' ! k)
                \<and> (\<forall>i < length (monsters s). i \<noteq> k \<longrightarrow> monsters s' ! i = monsters s ! i)
                \<and> inv_daggers (inventory (player s')) = d - 1
                \<and> alive (player s') = alive (player s))
           \<and> (d = 0 \<longrightarrow>
                \<not> alive (player s')
                \<and> m_alive (monsters s' ! k) = m_alive (monsters s ! k)
                \<and> (\<forall>i < length (monsters s). i \<noteq> k \<longrightarrow> monsters s' ! i = monsters s ! i)
                \<and> inv_daggers (inventory (player s')) = 0))"
proof -
  let ?k = "nat (turn s - 1)"
  let ?np = "point_add (m_position (monsters s ! ?k)) (to_vector a)"
  let ?d = "inv_daggers (inventory (player s))"
  from assms have k: "?k < length (monsters s)" by auto
  obtain s1 s' where mv: "monster_move s a = Inr s1" and adv: "advance s1 = Inr s'"
    and succ: "get_successor s a = Inr s'"
    using monster_turn_successor [OF assms] by blast
  from advance_frame [OF adv]
  have same: "monsters s' = monsters s1" "player s' = player s1" by simp_all
  have others: "\<forall>i < length (monsters s). i \<noteq> ?k \<longrightarrow> monsters s' ! i = monsters s ! i"
    using monster_move_others [OF assms mv] same by simp
  have fight: "?np = position (player s) \<longrightarrow> 1 \<le> ?d \<longrightarrow>
      \<not> m_alive (monsters s' ! ?k) \<and> inv_daggers (inventory (player s')) = ?d - 1
      \<and> alive (player s') = alive (player s)"
    using mv k same unfolding monster_move_in_range [OF assms] by (auto simp: Let_def)
  have eaten: "?np = position (player s) \<longrightarrow> ?d = 0 \<longrightarrow>
      \<not> alive (player s') \<and> m_alive (monsters s' ! ?k) = m_alive (monsters s ! ?k)
      \<and> inv_daggers (inventory (player s')) = 0"
    using mv k same unfolding monster_move_in_range [OF assms] by (auto simp: Let_def)
  from succ others fight eaten show ?thesis unfolding Let_def by blast
qed

theorem monster_encounter_witness:
  "0 < turn ex_monster_turn \<and> turn ex_monster_turn \<le> int (length (monsters ex_monster_turn))
   \<and> (\<exists>s'. get_successor ex_monster_turn LEFT = Inr s'
         \<and> \<not> m_alive (monsters s' ! 0) \<and> monsters s' ! 1 = monsters ex_monster_turn ! 1
         \<and> inv_daggers (inventory (player s')) = 2 \<and> alive (player s'))"
proof -
  have h: "0 < turn ex_monster_turn" "turn ex_monster_turn \<le> int (length (monsters ex_monster_turn))"
    by (simp_all add: ex_defs)
  from monster_encounter [OF h, of LEFT] obtain s' where
    s: "get_successor ex_monster_turn LEFT = Inr s'" and
    c: "(let k = nat (turn ex_monster_turn - 1);
            new_position = point_add (m_position (monsters ex_monster_turn ! k)) (to_vector LEFT);
            d = inv_daggers (inventory (player ex_monster_turn))
        in new_position = position (player ex_monster_turn) \<longrightarrow>
             (1 \<le> d \<longrightarrow>
                \<not> m_alive (monsters s' ! k)
                \<and> (\<forall>i < length (monsters ex_monster_turn). i \<noteq> k \<longrightarrow> monsters s' ! i = monsters ex_monster_turn ! i)
                \<and> inv_daggers (inventory (player s')) = d - 1
                \<and> alive (player s') = alive (player ex_monster_turn)))"
    unfolding Let_def by blast
  from c have "\<not> m_alive (monsters s' ! 0) \<and> monsters s' ! 1 = monsters ex_monster_turn ! 1
         \<and> inv_daggers (inventory (player s')) = 2 \<and> alive (player s')"
    by (simp add: ex_defs point_add_def Let_def less_Suc_eq)
  with h s show ?thesis by blast
qed

text \<open>
  Claim C10. On the turn \<open>k > 0\<close> of a monster of the list the successor has the same
  three item sets, the same layout, the same player position and coin and key counters, and
  the same monsters at every index other than \<open>k - 1\<close>.
\<close>

theorem monster_turn_frame:
  assumes "0 < turn s" and "turn s \<le> int (length (monsters s))"
  shows "\<exists>s'. get_successor s a = Inr s'
     \<and> coins s' = coins s \<and> daggers s' = daggers s \<and> keys s' = keys s
     \<and> layout s' = layout s
     \<and> position (player s') = position (player s)
     \<and> inv_coins (inventory (player s')) = inv_coins (inventory (player s))
     \<and> inv_keys (inventory (player s')) = inv_keys (inventory (player s))
     \<and> length (monsters s') = length (monsters s)
     \<and> (\<forall>i < length (monsters s). i \<noteq> nat (turn s - 1) \<longrightarrow> monsters s' ! i = monsters s ! i)"
proof -
  obtain s1 s' where mv: "monster_move s a = Inr s1" and adv: "advance s1 = Inr s'"
    and succ: "get_successor s a = Inr s'"
    using monster_turn_successor [OF assms] by blast
  have others: "\<forall>i < length (monsters s). i \<noteq> nat (turn s - 1) \<longrightarrow> monsters s' ! i = monsters s ! i"
    using monster_move_others [OF assms mv] advance_frame [OF adv] by simp
  from succ others advance_frame [OF adv] monster_move_frame [OF mv] show ?thesis by simp
qed

theorem monster_turn_frame_witness:
  "0 < turn ex_monster_turn \<and> turn ex_monster_turn \<le> int (length (monsters ex_monster_turn))
   \<and> (\<exists>s'. get_successor ex_monster_turn LEFT = Inr s'
         \<and> coins s' = {(1, 1)} \<and> daggers s' = {(0, 1)} \<and> keys s' = {(2, 0)}
         \<and> position (player s') = (0, 0)
         \<and> monsters s' ! 1 = \<lparr>m_position = (2, 2), m_alive = True\<rparr>)"
proof -
  have h: "0 < turn ex_monster_turn" "turn ex_monster_turn \<le> int (length (monsters ex_monster_turn))"
    by (simp_all add: ex_defs)
  from monster_turn_frame [OF h, of LEFT] obtain s' where
    s: "get_successor ex_monster_turn LEFT = Inr s'" and
    c: "coins s' = coins ex_monster_turn \<and> daggers s' = daggers ex_monster_turn
        \<and> keys s' = keys ex_monster_turn
        \<and> position (player s') = position (player ex_monster_turn)
        \<and> (\<forall>i < length (monsters ex_monster_turn).
              i \<noteq> nat (turn ex_monster_turn - 1) \<longrightarrow> monsters s' ! i = monsters ex_monster_turn ! i)"
    by blast
  from c have "coins s' = {(1, 1)} \<and> daggers s' = {(0, 1)} \<and> keys s' = {(2, 0)}
         \<and> position (player s') = (0, 0)
         \<and> monsters s' ! 1 = \<lparr>m_position = (2, 2), m_alive = True\<rparr>"
    by (simp add: ex_defs less_Suc_eq)
  with h s show ?thesis by blast
qed

subsection \<open>The clock\<close>

text \<open>
  Claim C7. Whenever \<open>get_successor\<close> returns a state, its time is the input time plus 1
  if its turn is 0 and the input time otherwise; and it does return a state whenever the turn
  is within the list of monsters. No other function of the game returns a state.
\<close>

theorem successor_time:
  "(\<forall>s'. get_successor s a = Inr s' \<longrightarrow>
        time s' = (if turn s' = 0 then time s + 1 else time s))
   \<and> (0 \<le> turn s \<and> turn s \<le> int (length (monsters s)) \<longrightarrow> (\<exists>s'. get_successor s a = Inr s'))"
proof (intro conjI allI impI)
  fix s'
  assume succ: "get_successor s a = Inr s'"
  show "time s' = (if turn s' = 0 then time s + 1 else time s)"
  proof (cases "turn s = 0")
    case True
    with succ have "advance (combat (pickup s a)) = Inr s'" by (simp add: get_successor_def)
    from advance_frame [OF this] show ?thesis by (simp add: combat_frame pickup_frame)
  next
    case False
    with succ obtain s1 where mv: "monster_move s a = Inr s1" and adv: "advance s1 = Inr s'"
      by (auto simp: get_successor_def split: sum.splits)
    from advance_frame [OF adv] monster_move_frame [OF mv] show ?thesis by simp
  qed
next
  assume r: "0 \<le> turn s \<and> turn s \<le> int (length (monsters s))"
  show "\<exists>s'. get_successor s a = Inr s'"
  proof (cases "turn s = 0")
    case True
    then have "turn (combat (pickup s a)) = 0" by (simp add: combat_frame pickup_frame)
    with True show ?thesis using advance_total [of "combat (pickup s a)"]
      by (simp add: get_successor_def)
  next
    case False
    with r have pos: "0 < turn s" and le: "turn s \<le> int (length (monsters s))" by simp_all
    from monster_turn_successor [OF pos le] show ?thesis by blast
  qed
qed

theorem successor_time_witness:
  "0 \<le> turn ex_monster_turn \<and> turn ex_monster_turn \<le> int (length (monsters ex_monster_turn))
   \<and> (\<exists>s'. get_successor ex_monster_turn LEFT = Inr s'
         \<and> time s' = (if turn s' = 0 then time ex_monster_turn + 1 else time ex_monster_turn))"
proof -
  have h: "0 \<le> turn ex_monster_turn \<and> turn ex_monster_turn \<le> int (length (monsters ex_monster_turn))"
    by (simp add: ex_defs)
  with successor_time [of ex_monster_turn LEFT] show ?thesis by blast
qed

subsection \<open>The invariants are preserved\<close>

lemma advance_inv:
  assumes adv: "advance s = Inr s'" and t: "0 \<le> turn s" and tm: "0 \<le> time s"
  shows "0 \<le> turn s' \<and> turn s' \<le> int (length (monsters s'))
         \<and> (turn s' \<noteq> 0 \<longrightarrow> m_alive (monsters s' ! nat (turn s' - 1)))
         \<and> 0 \<le> time s'"
  using next_turn_range [OF t advance_turn [OF adv]] advance_frame [OF adv] tm
  by (auto split: if_splits)

lemma combat_alive_monsters:
  "m \<in> set (monsters (combat s)) \<Longrightarrow> m_alive m \<Longrightarrow> m \<in> set (monsters s)"
  by (auto simp: combat_def split: if_splits)

lemma combat_daggers_nonneg:
  "0 \<le> inv_daggers (inventory (player s)) \<Longrightarrow> 0 \<le> inv_daggers (inventory (player (combat s)))"
  by (simp add: combat_def)

lemma player_turn_inv:
  assumes inv: "state_inv s" and t: "turn s = 0"
    and w: "point_add (position (player s)) (to_vector a) \<in> walkable (layout s)"
    and succ: "get_successor s a = Inr s'"
  shows "state_inv s'"
proof -
  let ?c = "combat (pickup s a)"
  from succ t have adv: "advance ?c = Inr s'" by (simp add: get_successor_def)
  note fr = advance_frame [OF adv]
  have tc: "0 \<le> turn ?c" "0 \<le> time ?c"
    using inv t by (simp_all add: combat_frame pickup_frame state_inv_def)
  note ai = advance_inv [OF adv tc]
  have pos: "position (player s') \<in> walkable (layout s')"
    using fr w by (simp add: combat_frame pickup_frame)
  have mons: "\<forall>m \<in> set (monsters s'). m_alive m \<longrightarrow> m_position m \<in> walkable (layout s')"
  proof (intro ballI impI)
    fix m assume "m \<in> set (monsters s')" and al: "m_alive m"
    then have "m \<in> set (monsters ?c)" using fr by simp
    from combat_alive_monsters [OF this al] have "m \<in> set (monsters s)"
      by (simp add: pickup_frame)
    with inv al show "m_position m \<in> walkable (layout s')"
      using fr by (simp add: state_inv_def combat_frame pickup_frame)
  qed
  have items: "coins s' \<subseteq> coins s" "daggers s' \<subseteq> daggers s" "keys s' \<subseteq> keys s"
    using fr by (auto simp: combat_frame pickup_items)
  have lay: "layout s' = layout s" using fr by (simp add: combat_frame pickup_frame)
  have dag: "0 \<le> inv_daggers (inventory (player s'))"
  proof -
    have "0 \<le> inv_daggers (inventory (player (pickup s a)))"
      using inv by (simp add: pickup_inventory state_inv_def)
    from combat_daggers_nonneg [OF this] fr show ?thesis by simp
  qed
  have ck: "0 \<le> inv_coins (inventory (player s'))" "0 \<le> inv_keys (inventory (player s'))"
    using inv fr by (simp_all add: combat_frame pickup_inventory state_inv_def)
  from inv items have sub: "coins s' \<subseteq> walkable (layout s')" "daggers s' \<subseteq> walkable (layout s')"
    "keys s' \<subseteq> walkable (layout s')"
    and dis: "coins s' \<inter> daggers s' = {}" "coins s' \<inter> keys s' = {}" "daggers s' \<inter> keys s' = {}"
    unfolding state_inv_def lay by blast+
  from inv have ly: "0 < width (layout s')" "0 < height (layout s')"
    "exit (layout s') \<in> walkable (layout s')"
    unfolding state_inv_def lay by blast+
  from ly pos mons sub dis ai dag ck show ?thesis unfolding state_inv_def by blast
qed

lemma monster_turn_inv:
  assumes inv: "state_inv s" and t: "0 < turn s"
    and w: "point_add (m_position (monsters s ! nat (turn s - 1))) (to_vector a) \<in> walkable (layout s)"
    and succ: "get_successor s a = Inr s'"
  shows "state_inv s'"
proof -
  from inv have le: "turn s \<le> int (length (monsters s))" by (simp add: state_inv_def)
  let ?k = "nat (turn s - 1)"
  from t succ obtain s1 where mv: "monster_move s a = Inr s1" and adv: "advance s1 = Inr s'"
    by (auto simp: get_successor_def split: sum.splits)
  note fr = advance_frame [OF adv]
  note mf = monster_move_frame [OF mv]
  have tc: "0 \<le> turn s1" "0 \<le> time s1" using inv t mf by (simp_all add: state_inv_def)
  note ai = advance_inv [OF adv tc]
  have lay: "layout s' = layout s" using fr mf by simp
  have pos: "position (player s') \<in> walkable (layout s')"
    using fr mf inv by (simp add: state_inv_def)
  have mons: "\<forall>m \<in> set (monsters s'). m_alive m \<longrightarrow> m_position m \<in> walkable (layout s')"
  proof (intro ballI impI)
    fix m assume "m \<in> set (monsters s')" and al: "m_alive m"
    then have m1: "m \<in> set (monsters s1)" using fr by simp
    have "m \<in> set (monsters s) \<or> m_position m = point_add (m_position (monsters s ! ?k)) (to_vector a)"
      using m1 mv unfolding monster_move_in_range [OF t le]
      by (auto simp: Let_def split: if_splits dest!: set_update_subset_insert [THEN subsetD])
    with inv al w show "m_position m \<in> walkable (layout s')"
      unfolding lay by (auto simp: state_inv_def)
  qed
  have items: "coins s' = coins s" "daggers s' = daggers s" "keys s' = keys s"
    using fr mf by simp_all
  have dag: "0 \<le> inv_daggers (inventory (player s'))"
    using mv inv fr unfolding monster_move_in_range [OF t le]
    by (auto simp: Let_def state_inv_def split: if_splits)
  have ck: "0 \<le> inv_coins (inventory (player s'))" "0 \<le> inv_keys (inventory (player s'))"
    using inv fr mf by (simp_all add: state_inv_def)
  from inv have sub: "coins s' \<subseteq> walkable (layout s')" "daggers s' \<subseteq> walkable (layout s')"
    "keys s' \<subseteq> walkable (layout s')"
    and dis: "coins s' \<inter> daggers s' = {}" "coins s' \<inter> keys s' = {}" "daggers s' \<inter> keys s' = {}"
    unfolding state_inv_def lay items by blast+
  from inv have ly: "0 < width (layout s')" "0 < height (layout s')"
    "exit (layout s') \<in> walkable (layout s')"
    unfolding state_inv_def lay by blast+
  from ly pos mons sub dis ai dag ck show ?thesis unfolding state_inv_def by blast
qed

text \<open>
  Claim C6. From a state that satisfies the invariants of the data model, every action
  that \<open>get_actions\<close> offers has a successor in which the player and every alive monster
  stand on walkable cells and the three item sets are pairwise disjoint; the successor
  satisfies all the invariants again.
\<close>

theorem successor_preserves_inv:
  assumes "state_inv s" and "get_actions s = Inr acts" and "a \<in> set acts"
  shows "\<exists>s'. get_successor s a = Inr s'
     \<and> position (player s') \<in> walkable (layout s')
     \<and> (\<forall>m \<in> set (monsters s'). m_alive m \<longrightarrow> m_position m \<in> walkable (layout s'))
     \<and> coins s' \<inter> daggers s' = {} \<and> coins s' \<inter> keys s' = {} \<and> daggers s' \<inter> keys s' = {}
     \<and> state_inv s'"
proof -
  from assms(1) have r: "0 \<le> turn s" "turn s \<le> int (length (monsters s))"
    by (simp_all add: state_inv_def)
  have "\<exists>s'. get_successor s a = Inr s' \<and> state_inv s'"
  proof (cases "turn s = 0")
    case True
    then have "turn (combat (pickup s a)) = 0" by (simp add: combat_frame pickup_frame)
    with True obtain s' where succ: "get_successor s a = Inr s'"
      using advance_total [of "combat (pickup s a)"] by (auto simp: get_successor_def)
    from True assms(2,3)
    have "point_add (position (player s)) (to_vector a) \<in> walkable (layout s)"
      by (auto simp: get_actions_def)
    from player_turn_inv [OF assms(1) True this succ] succ show ?thesis by blast
  next
    case False
    with r have pos: "0 < turn s" by simp
    obtain s' where succ: "get_successor s a = Inr s'"
      using monster_turn_successor [OF pos r(2)] by blast
    from pos r(2) assms(2,3)
    have "point_add (m_position (monsters s ! nat (turn s - 1))) (to_vector a) \<in> walkable (layout s)"
      by (auto simp: get_actions_def py_index_in_range split: if_splits)
    from monster_turn_inv [OF assms(1) pos this succ] succ show ?thesis by blast
  qed
  then obtain s' where "get_successor s a = Inr s'" and "state_inv s'" by blast
  then show ?thesis unfolding state_inv_def by blast
qed

theorem successor_preserves_inv_witness:
  "state_inv ex_fight \<and> get_actions ex_fight = Inr [DOWN, RIGHT, NONE] \<and> RIGHT \<in> set [DOWN, RIGHT, NONE]
   \<and> (\<exists>s'. get_successor ex_fight RIGHT = Inr s' \<and> state_inv s'
          \<and> position (player s') \<in> walkable (layout s'))"
proof -
  have i: "state_inv ex_fight" by (simp add: state_inv_def ex_defs)
  have g: "get_actions ex_fight = Inr [DOWN, RIGHT, NONE]"
    by (simp add: get_actions_def ex_defs all_directions_def point_add_def)
  have m: "RIGHT \<in> set [DOWN, RIGHT, NONE]" by simp
  from successor_preserves_inv [OF i g m] i g m show ?thesis by blast
qed

subsection \<open>Terminal states and payoffs\<close>

text \<open>
  Claim C4. With a key in the inventory and the player on the exit, \<open>is_terminal\<close> returns
  true and the payoffs \<open>1e8 + score\<close> for the player and the negation of that value for
  every monster. Otherwise, with a dead player, it returns true and the payoffs \<open>-1e8\<close> for
  the player and \<open>1e8\<close> for every monster. Otherwise it returns false and no payoffs. The
  sums and negations are those of the float operations, whatever they compute.
\<close>

theorem is_terminal_payoffs:
  "(inv_keys (inventory (player s)) \<noteq> 0 \<and> position (player s) = exit (game_layout g) \<longrightarrow>
      (\<exists>payoffs. is_terminal F g s = (True, Some payoffs)
         \<and> length payoffs = 1 + length (monsters s)
         \<and> payoffs ! 0 = f_add F (f_1e8 F) (score F s)
         \<and> (\<forall>i. 1 \<le> i \<and> i \<le> length (monsters s) \<longrightarrow>
                payoffs ! i = f_neg F (f_add F (f_1e8 F) (score F s))
                \<and> payoffs ! i = f_neg F (payoffs ! 0))))
   \<and> (\<not> (inv_keys (inventory (player s)) \<noteq> 0 \<and> position (player s) = exit (game_layout g))
        \<and> \<not> alive (player s) \<longrightarrow>
      (\<exists>payoffs. is_terminal F g s = (True, Some payoffs)
         \<and> length payoffs = 1 + length (monsters s)
         \<and> payoffs ! 0 = f_neg F (f_1e8 F)
         \<and> (\<forall>i. 1 \<le> i \<and> i \<le> length (monsters s) \<longrightarrow> payoffs ! i = f_1e8 F)))
   \<and> (\<not> (inv_keys (inventory (player s)) \<noteq> 0 \<and> position (player s) = exit (game_layout g))
        \<and> alive (player s) \<longrightarrow>
      is_terminal F g s = (False, None))"
proof (intro conjI impI)
  assume win: "inv_keys (inventory (player s)) \<noteq> 0 \<and> position (player s) = exit (game_layout g)"
  let ?v = "f_add F (f_1e8 F) (score F s)"
  have "is_terminal F g s = (True, Some (?v # map (\<lambda>_. f_neg F ?v) (monsters s)))"
    using win by (simp add: is_terminal_def Let_def)
  moreover have "\<forall>i. 1 \<le> i \<and> i \<le> length (monsters s) \<longrightarrow>
      (?v # map (\<lambda>_. f_neg F ?v) (monsters s)) ! i = f_neg F ?v"
    by (auto simp: nth_Cons')
  ultimately show "\<exists>payoffs. is_terminal F g s = (True, Some payoffs)
         \<and> length payoffs = 1 + length (monsters s)
         \<and> payoffs ! 0 = ?v
         \<and> (\<forall>i. 1 \<le> i \<and> i \<le> length (monsters s) \<longrightarrow>
                payoffs ! i = f_neg F ?v \<and> payoffs ! i = f_neg F (payoffs ! 0))"
    by simp
next
  assume lose: "\<not> (inv_keys (inventory (player s)) \<noteq> 0 \<and> position (player s) = exit (game_layout g))
        \<and> \<not> alive (player s)"
  have "is_terminal F g s = (True, Some (f_neg F (f_1e8 F) # map (\<lambda>_. f_1e8 F) (monsters s)))"
    using lose by (auto simp: is_terminal_def Let_def)
  moreover have "\<forall>i. 1 \<le> i \<and> i \<le> length (monsters s) \<longrightarrow>
      (f_neg F (f_1e8 F) # map (\<lambda>_. f_1e8 F) (monsters s)) ! i = f_1e8 F"
    by (auto simp: nth_Cons')
  ultimately show "\<exists>payoffs. is_terminal F g s = (True, Some payoffs)
         \<and> length payoffs = 1 + length (monsters s)
         \<and> payoffs ! 0 = f_neg F (f_1e8 F)
         \<and> (\<forall>i. 1 \<le> i \<and> i \<le> length (monsters s) \<longrightarrow> payoffs ! i = f_1e8 F)"
    by simp
next
  assume "\<not> (inv_keys (inventory (player s)) \<noteq> 0 \<and> position (player s) = exit (game_layout g))
        \<and> alive (player s)"
  then show "is_terminal F g s = (False, None)"
    by (auto simp: is_terminal_def Let_def)
qed

theorem is_terminal_payoffs_witness:
  "inv_keys (inventory (player ex_won)) \<noteq> 0 \<and> position (player ex_won) = exit (game_layout ex_game)
   \<and> (\<exists>payoffs. is_terminal exact_ops ex_game ex_won = (True, Some payoffs)
         \<and> payoffs ! 0 = 100000012 \<and> payoffs ! 1 = - 100000012 \<and> payoffs ! 2 = - 100000012)"
proof -
  have h: "inv_keys (inventory (player ex_won)) \<noteq> 0
           \<and> position (player ex_won) = exit (game_layout ex_game)"
    by (simp add: ex_won_def ex_game_def ex_layout_def)
  have sc: "f_add exact_ops (f_1e8 exact_ops) (score exact_ops ex_won) = 100000012"
    by (simp add: score_def dead_monsters_def exact_ops_def ex_won_def)
  from is_terminal_payoffs [of ex_won ex_game exact_ops] h
  obtain payoffs where p: "is_terminal exact_ops ex_game ex_won = (True, Some payoffs)"
    "payoffs ! 0 = f_add exact_ops (f_1e8 exact_ops) (score exact_ops ex_won)"
    "\<forall>i. 1 \<le> i \<and> i \<le> length (monsters ex_won) \<longrightarrow>
        payoffs ! i = f_neg exact_ops (f_add exact_ops (f_1e8 exact_ops) (score exact_ops ex_won))"
    by blast
  from p(3) have "payoffs ! 1 = - 100000012 \<and> payoffs ! 2 = - 100000012"
    unfolding sc by (simp add: ex_won_def exact_ops_def)
  with h p(1) p(2) sc show ?thesis by auto
qed

subsection \<open>The monster agent\<close>

lemma select_new_action_steps:
  "select_new_action R ag0 actions = Inr ag1 \<Longrightarrow> steps ag1 = 0"
  by (auto simp: select_new_action_def Let_def split: prod.splits option.splits if_splits)

lemma map_sum_finish:
  "map_sum id finish x = Inr (d, ag') \<Longrightarrow>
     \<exists>ag1. x = Inr ag1 \<and> d = current_direction ag1 \<and> ag' = ag1\<lparr>steps := steps ag1 + 1\<rparr>"
  by (cases x) (auto simp: finish_def)

lemma act_returns:
  assumes a: "act F R ag s = Inr (d, ag')"
  shows "d = current_direction ag' \<and> (steps ag' = 1 \<or> steps ag' = steps ag + 1)"
proof -
  from a obtain actions where ga: "get_actions s = Inr actions"
    by (auto simp: act_def split: sum.splits)
  obtain u r1 where fl: "rng_float R (rng ag) = (u, r1)" by (cases "rng_float R (rng ag)")
  from a ga fl consider
      (resample) ag0 where "map_sum id finish (select_new_action R ag0 actions) = Inr (d, ag')"
    | (keep) "finish (ag\<lparr>rng := r1\<rparr>) = (d, ag')"
    by (auto simp: act_def split: if_splits)
  then show ?thesis
  proof cases
    case resample
    from map_sum_finish [OF resample] obtain ag1 where
      "select_new_action R ag0 actions = Inr ag1" "d = current_direction ag1"
      "ag' = ag1\<lparr>steps := steps ag1 + 1\<rparr>" by blast
    with select_new_action_steps [of R ag0 actions ag1] show ?thesis by simp
  next
    case keep
    then show ?thesis by (auto simp: finish_def)
  qed
qed

text \<open>
  Claim C9. Let \<open>movement\<close> be the offered actions without \<open>NONE\<close>. A resample commits to
  \<open>movement[i]\<close> for the integer \<open>i\<close> drawn from \<open>[0, len - 1]\<close>, or to \<open>NONE\<close> when
  \<open>movement\<close> is empty, and leaves the step counter at 1 (reset to 0, then incremented). If
  the committed direction is \<open>NONE\<close> or is not offered, \<open>act\<close> resamples without drawing a
  float. Otherwise the float drawn decides: either a resample, or the committed direction
  is kept and the step counter is one more. Whenever \<open>act\<close> returns, the direction returned
  is the committed one and the step counter is 1 (after a resample) or one more than before.
\<close>

theorem act_policy:
  assumes ga: "get_actions s = Inr actions"
  shows
   "(let movement = filter (\<lambda>a. a \<noteq> NONE) actions;
         m = min (width (layout s)) (height (layout s));
         resampled = (\<lambda>r. if movement \<noteq> [] then
                        (case rng_int R r 0 (int (length movement) - 1) of
                           (i, r') \<Rightarrow>
                             if 0 \<le> i \<and> i < int (length movement) then
                               Inr (movement ! nat i,
                                    \<lparr>rng = r', current_direction = movement ! nat i, steps = 1\<rparr>)
                             else if - int (length movement) \<le> i \<and> i < 0 then
                               Inr (movement ! nat (int (length movement) + i),
                                    \<lparr>rng = r',
                                     current_direction = movement ! nat (int (length movement) + i),
                                     steps = 1\<rparr>)
                             else Inl IndexError)
                      else Inr (NONE, \<lparr>rng = r, current_direction = NONE, steps = 1\<rparr>))
     in (current_direction ag = NONE \<or> current_direction ag \<notin> set actions \<longrightarrow>
           act F R ag s = resampled (rng ag))
      \<and> (current_direction ag \<noteq> NONE \<and> current_direction ag \<in> set actions \<and> m \<noteq> 0 \<longrightarrow>
           (case rng_float R (rng ag) of
              (u, r1) \<Rightarrow>
                if f_gt F u (f_pow F 2 (f_truediv F (- steps ag) m))
                then act F R ag s = resampled r1
                else act F R ag s =
                       Inr (current_direction ag,
                            \<lparr>rng = r1, current_direction = current_direction ag,
                             steps = steps ag + 1\<rparr>)))
      \<and> (\<forall>d ag'. act F R ag s = Inr (d, ag') \<longrightarrow>
           d = current_direction ag' \<and> (steps ag' = 1 \<or> steps ag' = steps ag + 1)))"
proof -
  let ?movement = "filter (\<lambda>a. a \<noteq> NONE) actions"
  let ?resampled = "\<lambda>r. if ?movement \<noteq> [] then
                        (case rng_int R r 0 (int (length ?movement) - 1) of
                           (i, r') \<Rightarrow>
                             if 0 \<le> i \<and> i < int (length ?movement) then
                               Inr (?movement ! nat i,
                                    \<lparr>rng = r', current_direction = ?movement ! nat i, steps = 1\<rparr>)
                             else if - int (length ?movement) \<le> i \<and> i < 0 then
                               Inr (?movement ! nat (int (length ?movement) + i),
                                    \<lparr>rng = r',
                                     current_direction = ?movement ! nat (int (length ?movement) + i),
                                     steps = 1\<rparr>)
                             else Inl IndexError)
                      else Inr (NONE, \<lparr>rng = r, current_direction = NONE, steps = 1\<rparr>)"
  have sel: "map_sum id finish (select_new_action R (ag\<lparr>rng := r\<rparr>) actions) = ?resampled r"
    for r
    by (cases "rng_int R r 0 (int (length ?movement) - 1)")
       (simp add: select_new_action_def finish_def py_index_def Let_def)
  have sel0: "map_sum id finish (select_new_action R ag actions) = ?resampled (rng ag)"
    using sel [of "rng ag"] by simp
  have forced: "current_direction ag = NONE \<or> current_direction ag \<notin> set actions \<longrightarrow>
      act F R ag s = ?resampled (rng ag)"
    using ga sel0 by (simp add: act_def)
  let ?m = "min (width (layout s)) (height (layout s))"
  have free: "current_direction ag \<noteq> NONE \<and> current_direction ag \<in> set actions \<and> ?m \<noteq> 0 \<longrightarrow>
      (case rng_float R (rng ag) of
         (u, r1) \<Rightarrow>
           if f_gt F u (f_pow F 2 (f_truediv F (- steps ag) ?m))
           then act F R ag s = ?resampled r1
           else act F R ag s =
                  Inr (current_direction ag,
                       \<lparr>rng = r1, current_direction = current_direction ag,
                        steps = steps ag + 1\<rparr>))"
  proof
    assume h: "current_direction ag \<noteq> NONE \<and> current_direction ag \<in> set actions \<and> ?m \<noteq> 0"
    obtain u r1 where fl: "rng_float R (rng ag) = (u, r1)" by (cases "rng_float R (rng ag)")
    show "(case rng_float R (rng ag) of
         (u, r1) \<Rightarrow>
           if f_gt F u (f_pow F 2 (f_truediv F (- steps ag) ?m))
           then act F R ag s = ?resampled r1
           else act F R ag s =
                  Inr (current_direction ag,
                       \<lparr>rng = r1, current_direction = current_direction ag,
                        steps = steps ag + 1\<rparr>))"
    proof (cases "f_gt F u (f_pow F 2 (f_truediv F (- steps ag) ?m))")
      case True
      with h ga fl sel [of r1] show ?thesis by (simp add: act_def)
    next
      case False
      with h ga fl show ?thesis by (simp add: act_def finish_def)
    qed
  qed
  have ret: "\<forall>d ag'. act F R ag s = Inr (d, ag') \<longrightarrow>
      d = current_direction ag' \<and> (steps ag' = 1 \<or> steps ag' = steps ag + 1)"
    using act_returns [of F R ag s] by blast
  from forced free ret show ?thesis unfolding Let_def by blast
qed

theorem act_policy_witness:
  "get_actions ex_second_monster = Inr [UP, LEFT, NONE]
   \<and> act exact_ops counter_rng ex_agent ex_second_monster =
       Inr (LEFT, \<lparr>rng = 2, current_direction = LEFT, steps = 1\<rparr>)
   \<and> act exact_ops counter_rng (ex_agent\<lparr>current_direction := UP, steps := 0\<rparr>) ex_second_monster =
       Inr (UP, \<lparr>rng = 2, current_direction = UP, steps = 1\<rparr>)"
proof -
  have g: "get_actions ex_second_monster = Inr [UP, LEFT, NONE]"
    by (simp add: get_actions_def ex_second_monster_def ex_defs all_directions_def
        point_add_def py_index_def monster_locations_def enumerate_eq_zip upt_rec)
  have a: "act exact_ops counter_rng ex_agent ex_second_monster =
       Inr (LEFT, \<lparr>rng = 2, current_direction = LEFT, steps = 1\<rparr>)"
    using act_policy [OF g, of counter_rng ex_agent exact_ops]
    by (simp add: Let_def ex_agent_def counter_rng_def)
  have b: "act exact_ops counter_rng (ex_agent\<lparr>current_direction := UP, steps := 0\<rparr>) ex_second_monster =
       Inr (UP, \<lparr>rng = 2, current_direction = UP, steps = 1\<rparr>)"
    using act_policy [OF g, of counter_rng "ex_agent\<lparr>current_direction := UP, steps := 0\<rparr>" exact_ops]
    by (simp add: Let_def ex_agent_def counter_rng_def exact_ops_def ex_second_monster_def ex_defs)
  from g a b show ?thesis by simp
qed

end
